theory Spec2Isabelle
  imports Main "HOL-Library.Sublist"
begin

section \<open>Python strings\<close>

text \<open>
  A Python \<open>str\<close> is a sequence of Unicode code points, so a character is modelled by its
  code point and a string by the list of its code points. Lines are kept verbatim,
  terminator included.
\<close>

type_synonym pychar = nat
type_synonym pystr = "pychar list"

text \<open>An ASCII literal as a Python string.\<close>

definition py :: "string \<Rightarrow> pystr" where
  "py s = map of_char s"

text \<open>
  The characters that \<open>str.strip()\<close> removes when it is called without an argument: the
  code points for which \<open>str.isspace\<close> holds.
\<close>

definition is_space :: "pychar \<Rightarrow> bool" where
  "is_space c \<longleftrightarrow>
     (9 \<le> c \<and> c \<le> 13) \<or> (28 \<le> c \<and> c \<le> 32) \<or> c = 133 \<or> c = 160 \<or> c = 5760 \<or>
     (8192 \<le> c \<and> c \<le> 8202) \<or> c = 8232 \<or> c = 8233 \<or> c = 8239 \<or> c = 8287 \<or>
     c = 12288"

text \<open>\<open>s.strip()\<close>: leading and trailing whitespace removed.\<close>

definition strip :: "pystr \<Rightarrow> pystr" where
  "strip s = rev (dropWhile is_space (rev (dropWhile is_space s)))"

text \<open>The separator \<open>"|"\<close>.\<close>

definition bar :: pychar where
  "bar = 124"

text \<open>
  \<open>s.split(sep, 1)\<close> for a one-character separator: the string is cut at the first
  occurrence of the separator, if there is one, and the result has one or two parts.
\<close>

definition split1 :: "pychar \<Rightarrow> pystr \<Rightarrow> pystr list" where
  "split1 sep s =
     (case dropWhile (\<lambda>c. c \<noteq> sep) s of
        [] \<Rightarrow> [s]
      | _ # rest \<Rightarrow> [takeWhile (\<lambda>c. c \<noteq> sep) s, rest])"

section \<open>The deduplicator\<close>

text \<open>\<open>not data.strip()\<close>: the line is empty or holds whitespace only.\<close>

definition is_blank :: "pystr \<Rightarrow> bool" where
  "is_blank data \<longleftrightarrow> strip data = []"

text \<open>\<open>data.strip().split("|", 1)[0].strip()\<close>: the URL of a line.\<close>

definition url_key :: "pystr \<Rightarrow> pystr" where
  "url_key data = strip (hd (split1 bar (strip data)))"

text \<open>
  One iteration of the loop of \<open>deduplicate\<close>, on the pair of \<open>url_set\<close> and
  \<open>output_list\<close>.
\<close>

definition dedup_step :: "pystr set \<times> pystr list \<Rightarrow> pystr \<Rightarrow> pystr set \<times> pystr list" where
  "dedup_step st data =
     (case st of (url_set, output_list) \<Rightarrow>
        if is_blank data then (url_set, output_list @ [data])
        else let url = url_key data in
          if url \<in> url_set then (url_set, output_list)
          else (insert url url_set, output_list @ [data]))"

text \<open>The loop from a given state, and the state after the whole loop.\<close>

definition dedup_loop :: "pystr set \<times> pystr list \<Rightarrow> pystr list \<Rightarrow> pystr set \<times> pystr list" where
  "dedup_loop st data_list = foldl dedup_step st data_list"

definition deduplicate :: "pystr list \<Rightarrow> pystr list" where
  "deduplicate data_list = snd (dedup_loop ({}, []) data_list)"

text \<open>The set \<open>url_set\<close> once the lines of \<open>data_list\<close> have been processed.\<close>

definition url_set_after :: "pystr list \<Rightarrow> pystr set" where
  "url_set_after data_list = fst (dedup_loop ({}, []) data_list)"

text \<open>
  Position \<open>i\<close> of \<open>data_list\<close> holds the first non-blank line with its URL: no non-blank
  line before it has the same URL.
\<close>

definition first_occurrence :: "pystr list \<Rightarrow> nat \<Rightarrow> bool" where
  "first_occurrence data_list i \<longleftrightarrow>
     (\<forall>j<i. \<not> is_blank (data_list ! j) \<longrightarrow> url_key (data_list ! j) \<noteq> url_key (data_list ! i))"

section \<open>Files and the entry point\<close>

text \<open>
  The file system as the script sees it through text-mode \<open>open\<close>. A file may or may not
  be open to reading and to writing, and its text is what the text layer delivers; it
  is \<open>None\<close> when the bytes of the file are not valid in the encoding. The progress bars
  of \<open>rich.progress.track\<close> only observe the iteration and are left out; the lines that
  \<open>print\<close> writes are recorded in order.
\<close>

type_synonym path = string

datatype io_error = FileNotFoundError | PermissionError | UnicodeDecodeError

record textfile =
  readable :: bool
  writable :: bool
  content :: "pystr option"

datatype message = Overwrite_notice | Done_notice path

record world =
  files :: "path \<rightharpoonup> textfile"
  create_error :: "path \<rightharpoonup> io_error"
  stdout :: "message list"

datatype outcome = Returned | Raised io_error

text \<open>
  Iterating over a text file yields its lines, each with its terminator; the last line
  may lack one.
\<close>

fun file_lines :: "pystr \<Rightarrow> pystr \<Rightarrow> pystr list" where
  "file_lines cur [] = (if cur = [] then [] else [cur])"
| "file_lines cur (c # cs) =
     (if c = 10 then (cur @ [c]) # file_lines [] cs else file_lines (cur @ [c]) cs)"

definition read_file :: "path \<Rightarrow> world \<Rightarrow> io_error + pystr list" where
  "read_file file_path w =
     (case files w file_path of
        None \<Rightarrow> Inl FileNotFoundError
      | Some f \<Rightarrow>
          if \<not> readable f then Inl PermissionError
          else (case content f of
                  None \<Rightarrow> Inl UnicodeDecodeError
                | Some txt \<Rightarrow> Inr (file_lines [] txt)))"

definition print_line :: "message \<Rightarrow> world \<Rightarrow> world" where
  "print_line m w = w\<lparr>stdout := stdout w @ [m]\<rparr>"

text \<open>
  \<open>write_file\<close>: mode \<open>"w"\<close> creates the file or empties it, \<open>writelines\<close> writes the lines
  one after the other, and the completion message is printed once the file is closed.
  A failure of \<open>open\<close> leaves the file system as it was. A failure in the middle of
  \<open>writelines\<close> (a full disk) is not part of the model.
\<close>

definition write_file :: "pystr list \<Rightarrow> path \<Rightarrow> world \<Rightarrow> outcome \<times> world" where
  "write_file data_list file_path w =
     (case files w file_path of
        None \<Rightarrow>
          (case create_error w file_path of
             Some e \<Rightarrow> (Raised e, w)
           | None \<Rightarrow>
               (Returned,
                print_line (Done_notice file_path)
                  (w\<lparr>files := (files w)(file_path \<mapsto>
                       \<lparr>readable = True, writable = True,
                        content = Some (concat data_list)\<rparr>)\<rparr>)))
      | Some f \<Rightarrow>
          if \<not> writable f then (Raised PermissionError, w)
          else
            (Returned,
             print_line (Done_notice file_path)
               (w\<lparr>files := (files w)(file_path \<mapsto> f\<lparr>content := Some (concat data_list)\<rparr>)\<rparr>)))"

text \<open>
  The command line as \<open>argparse\<close> hands it over: \<open>new_path\<close> is \<open>None\<close> when the argument is
  left out. \<open>main\<close> starts from the parsed arguments.
\<close>

record args =
  old_path :: path
  new_path :: "path option"

definition main :: "args \<Rightarrow> world \<Rightarrow> outcome \<times> world" where
  "main a w =
     (let (dest, w1) =
            (case new_path a of
               None \<Rightarrow> (old_path a, print_line Overwrite_notice w)
             | Some p \<Rightarrow> (p, w))
      in case read_file (old_path a) w1 of
           Inl e \<Rightarrow> (Raised e, w1)
         | Inr data_list \<Rightarrow> write_file (deduplicate data_list) dest w1)"

section \<open>Stripping and splitting\<close>

lemma bar_not_space: "\<not> is_space bar"
  by (simp add: is_space_def bar_def)

lemma hd_split1: "hd (split1 sep s) = takeWhile (\<lambda>c. c \<noteq> sep) s"
proof (cases "dropWhile (\<lambda>c. c \<noteq> sep) s")
  case Nil
  have "\<forall>c\<in>set s. c \<noteq> sep" using Nil by (simp add: dropWhile_eq_Nil_conv)
  then have t: "takeWhile (\<lambda>c. c \<noteq> sep) s = s" by (simp add: takeWhile_eq_all_conv)
  have "split1 sep s = [s]" unfolding split1_def Nil by simp
  with t show ?thesis by (simp only: list.sel)
next
  case (Cons a rest)
  have "split1 sep s = [takeWhile (\<lambda>c. c \<noteq> sep) s, rest]" unfolding split1_def Cons by simp
  then show ?thesis by simp
qed

lemma set_strip_subset: "set (strip s) \<subseteq> set s"
  by (auto simp: strip_def dest!: set_dropWhileD)

lemma strip_Nil_iff: "strip s = [] \<longleftrightarrow> (\<forall>c\<in>set s. is_space c)"
proof
  assume "strip s = []"
  then have "dropWhile is_space (rev (dropWhile is_space s)) = []" by (simp add: strip_def)
  then have "\<forall>c\<in>set (dropWhile is_space s). is_space c"
    by (simp add: dropWhile_eq_Nil_conv)
  then have "dropWhile is_space s = []"
    by (metis hd_dropWhile list.set_sel(1))
  then show "\<forall>c\<in>set s. is_space c" by (simp add: dropWhile_eq_Nil_conv)
next
  assume "\<forall>c\<in>set s. is_space c"
  then have "dropWhile is_space s = []" by (simp add: dropWhile_eq_Nil_conv)
  then show "strip s = []" by (simp only: strip_def rev.simps dropWhile.simps)
qed

lemma dropWhile_id: "xs = [] \<or> \<not> P (hd xs) \<Longrightarrow> dropWhile P xs = xs"
  by (cases xs) auto

lemma strip_strip: "strip (strip s) = strip s"
proof -
  define d where "d = dropWhile is_space s"
  define r where "r = dropWhile is_space (rev d)"
  have d: "d = rev r @ rev (takeWhile is_space (rev d))"
    unfolding r_def by (metis rev_append rev_rev_ident takeWhile_dropWhile_id)
  have "rev r = [] \<or> \<not> is_space (hd (rev r))"
  proof (cases "r = []")
    case True
    then show ?thesis by simp
  next
    case False
    then have "hd d = hd (rev r)" using d by (metis hd_append2 rev_is_Nil_conv)
    moreover have "d \<noteq> []" using d False by auto
    then have "\<not> is_space (hd d)" unfolding d_def by (rule hd_dropWhile)
    ultimately show ?thesis by simp
  qed
  then have "dropWhile is_space (rev r) = rev r" by (rule dropWhile_id)
  moreover have "dropWhile is_space r = r" unfolding r_def by simp
  moreover have "strip s = rev r" unfolding strip_def r_def d_def by simp
  ultimately show ?thesis by (simp add: strip_def)
qed

lemma strip_append_bar:
  "strip (u @ bar # t) = dropWhile is_space u @ bar # rev (dropWhile is_space (rev t))"
proof -
  have a: "dropWhile is_space (u @ bar # t) = dropWhile is_space u @ bar # t"
    by (simp add: dropWhile_append3 bar_not_space)
  have b: "dropWhile is_space (rev t @ bar # rev (dropWhile is_space u))
             = dropWhile is_space (rev t) @ bar # rev (dropWhile is_space u)"
    by (simp add: dropWhile_append3 bar_not_space)
  show ?thesis unfolding strip_def a using b by simp
qed

lemma strip_dropWhile: "strip (dropWhile is_space u) = strip u"
  by (simp add: strip_def)

lemma url_key_takeWhile: "url_key data = strip (takeWhile (\<lambda>c. c \<noteq> bar) (strip data))"
  by (simp add: url_key_def hd_split1)

lemma url_key_before_bar:
  assumes "bar \<notin> set u"
  shows "url_key (u @ bar # t) = strip u"
proof -
  have "bar \<notin> set (dropWhile is_space u)"
    using assms set_dropWhileD by fastforce
  then have "takeWhile (\<lambda>c. c \<noteq> bar) (dropWhile is_space u @ bar # rev (dropWhile is_space (rev t)))
          = dropWhile is_space u"
    by (metis (mono_tags, lifting) takeWhile_append2 takeWhile.simps(2) append_Nil2)
  then show ?thesis
    by (simp add: url_key_takeWhile strip_append_bar strip_dropWhile)
qed

lemma url_key_no_bar:
  assumes "bar \<notin> set data"
  shows "url_key data = strip data"
proof -
  have "\<forall>c\<in>set (strip data). c \<noteq> bar" using assms set_strip_subset by blast
  then have "takeWhile (\<lambda>c. c \<noteq> bar) (strip data) = strip data"
    by (simp add: takeWhile_eq_all_conv)
  then show ?thesis by (simp only: url_key_takeWhile strip_strip)
qed

section \<open>The loop of the deduplicator\<close>

lemma dedup_loop_snoc: "dedup_loop st (xs @ [l]) = dedup_step (dedup_loop st xs) l"
  by (simp add: dedup_loop_def)

lemma url_set_after_snoc:
  "url_set_after (xs @ [l]) =
     (if is_blank l then url_set_after xs else insert (url_key l) (url_set_after xs))"
  by (auto simp: url_set_after_def dedup_loop_snoc dedup_step_def Let_def split: prod.splits)

lemma deduplicate_snoc:
  "deduplicate (xs @ [l]) =
     (if is_blank l \<or> url_key l \<notin> url_set_after xs then deduplicate xs @ [l]
      else deduplicate xs)"
  by (auto simp: deduplicate_def url_set_after_def dedup_loop_snoc dedup_step_def Let_def
      split: prod.splits)

lemma deduplicate_Nil: "deduplicate [] = []"
  by (simp add: deduplicate_def dedup_loop_def)

lemma url_set_after_Nil: "url_set_after [] = {}"
  by (simp add: url_set_after_def dedup_loop_def)

lemma url_set_after_eq:
  "url_set_after xs = url_key ` {l \<in> set xs. \<not> is_blank l}"
  by (induction xs rule: rev_induct) (auto simp: url_set_after_Nil url_set_after_snoc)

lemma url_set_after_deduplicate:
  "url_set_after xs = url_key ` {l \<in> set (deduplicate xs). \<not> is_blank l}"
  by (induction xs rule: rev_induct)
     (auto simp: url_set_after_Nil deduplicate_Nil url_set_after_snoc deduplicate_snoc)

lemma deduplicate_subseq: "subseq (deduplicate xs) xs"
  by (induction xs rule: rev_induct) (auto simp: deduplicate_Nil deduplicate_snoc)

lemma deduplicate_distinct_keys:
  "distinct (map url_key (filter (\<lambda>l. \<not> is_blank l) (deduplicate xs)))"
  by (induction xs rule: rev_induct)
     (auto simp: deduplicate_Nil deduplicate_snoc url_set_after_deduplicate)

lemma deduplicate_fixpoint:
  "distinct (map url_key (filter (\<lambda>l. \<not> is_blank l) xs)) \<Longrightarrow> deduplicate xs = xs"
  by (induction xs rule: rev_induct)
     (auto simp: deduplicate_Nil deduplicate_snoc url_set_after_eq)

lemma key_seen_iff:
  "url_key l \<in> url_set_after xs \<longleftrightarrow>
     (\<exists>j<length xs. \<not> is_blank (xs ! j) \<and> url_key (xs ! j) = url_key l)"
  by (auto simp: url_set_after_eq in_set_conv_nth image_iff)

lemma first_occurrence_snoc_last:
  "first_occurrence (xs @ [l]) (length xs) \<longleftrightarrow> url_key l \<notin> url_set_after xs"
  by (auto simp: first_occurrence_def key_seen_iff nth_append)

lemma first_occurrence_snoc_before:
  "i < length xs \<Longrightarrow> first_occurrence (xs @ [l]) i = first_occurrence xs i"
  by (auto simp: first_occurrence_def nth_append)

lemma deduplicate_positions:
  "deduplicate xs =
     map ((!) xs) (filter (\<lambda>i. is_blank (xs ! i) \<or> first_occurrence xs i) [0..<length xs])"
proof (induction xs rule: rev_induct)
  case Nil
  show ?case by (simp add: deduplicate_Nil)
next
  case (snoc l xs)
  let ?keep = "\<lambda>ys i. is_blank (ys ! i) \<or> first_occurrence ys i"
  have f: "filter (?keep (xs @ [l])) [0..<length xs] = filter (?keep xs) [0..<length xs]"
    by (rule filter_cong) (auto simp: nth_append first_occurrence_snoc_before)
  have m: "map ((!) (xs @ [l])) (filter (?keep xs) [0..<length xs])
         = map ((!) xs) (filter (?keep xs) [0..<length xs])"
    by (rule map_cong) (auto simp: nth_append)
  have last: "?keep (xs @ [l]) (length xs) \<longleftrightarrow> is_blank l \<or> url_key l \<notin> url_set_after xs"
    by (simp add: first_occurrence_snoc_last)
  show ?case
  proof (cases "is_blank l \<or> url_key l \<notin> url_set_after xs")
    case True
    then have "deduplicate (xs @ [l]) = deduplicate xs @ [l]" by (simp add: deduplicate_snoc)
    moreover have "filter (?keep (xs @ [l])) [0..<length (xs @ [l])]
        = filter (?keep xs) [0..<length xs] @ [length xs]"
      using True last f by simp
    ultimately show ?thesis using snoc.IH m by simp
  next
    case False
    then have "deduplicate (xs @ [l]) = deduplicate xs" by (simp add: deduplicate_snoc)
    moreover have "filter (?keep (xs @ [l])) [0..<length (xs @ [l])]
        = filter (?keep xs) [0..<length xs]"
      using False last f by simp
    ultimately show ?thesis using snoc.IH m by simp
  qed
qed

lemma dedup_loop_output:
  "dedup_loop (S, out) ys = (fst (dedup_loop (S, []) ys), out @ snd (dedup_loop (S, []) ys))"
proof (induction ys rule: rev_induct)
  case Nil
  show ?case by (simp add: dedup_loop_def)
next
  case (snoc l ys)
  obtain S' out' where st: "dedup_loop (S, []) ys = (S', out')" by (cases "dedup_loop (S, []) ys")
  with snoc.IH have "dedup_loop (S, out) ys = (S', out @ out')" by simp
  with st show ?case by (simp add: dedup_loop_snoc dedup_step_def Let_def)
qed

lemma deduplicate_append:
  "deduplicate (xs @ ys) = deduplicate xs @ snd (dedup_loop (url_set_after xs, []) ys)"
proof -
  have "dedup_loop ({}, []) (xs @ ys) = dedup_loop (url_set_after xs, deduplicate xs) ys"
    by (simp add: dedup_loop_def url_set_after_def deduplicate_def)
  then show ?thesis by (simp add: deduplicate_def [of "xs @ ys"] dedup_loop_output [of _ "deduplicate xs"])
qed

lemma dedup_loop_blank_Cons:
  "is_blank l \<Longrightarrow> snd (dedup_loop (S, []) (l # ys)) = l # snd (dedup_loop (S, []) ys)"
  by (simp add: dedup_loop_def dedup_step_def dedup_loop_output [of S "[l]", unfolded dedup_loop_def])

lemma deduplicate_same_key:
  "filter (\<lambda>l. \<not> is_blank l \<and> url_key l = k) (deduplicate xs)
     = take 1 (filter (\<lambda>l. \<not> is_blank l \<and> url_key l = k) xs)"
proof (induction xs rule: rev_induct)
  case Nil
  show ?case by (simp add: deduplicate_Nil)
next
  case (snoc l xs)
  let ?P = "\<lambda>l. \<not> is_blank l \<and> url_key l = k"
  show ?case
  proof (cases "?P l")
    case False
    then show ?thesis using snoc.IH by (auto simp: deduplicate_snoc)
  next
    case True
    show ?thesis
    proof (cases "k \<in> url_set_after xs")
      case seen: True
      then have "filter ?P xs \<noteq> []"
        by (auto simp: url_set_after_eq filter_empty_conv)
      then have "take 1 (filter ?P xs @ [l]) = take 1 (filter ?P xs)"
        by (cases "filter ?P xs") auto
      then show ?thesis using True seen snoc.IH by (simp add: deduplicate_snoc)
    next
      case unseen: False
      then have "filter ?P xs = []"
        by (auto simp: url_set_after_eq filter_empty_conv)
      then show ?thesis using True unseen snoc.IH by (simp add: deduplicate_snoc)
    qed
  qed
qed

section \<open>The properties of the specification\<close>

lemmas string_eval = py_def strip_def split1_def bar_def is_space_def is_blank_def url_key_def

lemmas dedup_eval = deduplicate_def url_set_after_def dedup_loop_def dedup_step_def Let_def

text \<open>
  C1. The output is the input restricted, in order, to the positions that hold a blank
  line or the first non-blank line with its URL. So when a URL occurs on non-blank lines
  at positions \<open>i1 < i2 < ...\<close>, the iteration at \<open>i1\<close> appends the line and the iterations at
  \<open>i2, ...\<close> leave the output as it is. URLs are compared by equality of their code point
  sequences.
\<close>

theorem first_occurrence_rule:
  "deduplicate xs =
     map ((!) xs) (filter (\<lambda>i. is_blank (xs ! i) \<or> first_occurrence xs i) [0..<length xs])
   \<and> (\<forall>i<length xs. \<not> is_blank (xs ! i) \<longrightarrow>
          deduplicate (take (Suc i) xs) =
            deduplicate (take i xs) @ (if first_occurrence xs i then [xs ! i] else []))"
proof (intro conjI allI impI)
  show "deduplicate xs =
     map ((!) xs) (filter (\<lambda>i. is_blank (xs ! i) \<or> first_occurrence xs i) [0..<length xs])"
    by (rule deduplicate_positions)
next
  fix i assume i: "i < length xs" and nb: "\<not> is_blank (xs ! i)"
  have t: "take (Suc i) xs = take i xs @ [xs ! i]"
    using i by (simp add: take_Suc_conv_app_nth)
  have "first_occurrence (take i xs @ [xs ! i]) (length (take i xs))
          \<longleftrightarrow> url_key (xs ! i) \<notin> url_set_after (take i xs)"
    by (rule first_occurrence_snoc_last)
  moreover have "first_occurrence (take i xs @ [xs ! i]) (length (take i xs))
          \<longleftrightarrow> first_occurrence xs i"
    using i by (simp add: first_occurrence_def nth_append)
  ultimately show "deduplicate (take (Suc i) xs) =
            deduplicate (take i xs) @ (if first_occurrence xs i then [xs ! i] else [])"
    using nb by (simp add: t deduplicate_snoc)
qed

theorem first_occurrence_rule_witness:
  "deduplicate [py ''a | x'', py ''b'', py ''  '', py ''a | y'', py ''A | z'']
     = [py ''a | x'', py ''b'', py ''  '', py ''A | z'']
   \<and> \<not> first_occurrence [py ''a | x'', py ''b'', py ''  '', py ''a | y'', py ''A | z''] 3
   \<and> deduplicate (take (Suc 3) [py ''a | x'', py ''b'', py ''  '', py ''a | y'', py ''A | z''])
     = deduplicate (take 3 [py ''a | x'', py ''b'', py ''  '', py ''a | y'', py ''A | z''])"
proof -
  let ?xs = "[py ''a | x'', py ''b'', py ''  '', py ''a | y'', py ''A | z'']"
  have len: "3 < length ?xs" by simp
  have nb: "\<not> is_blank (?xs ! 3)" by (simp add: string_eval)
  have "\<not> is_blank (?xs ! 0) \<and> url_key (?xs ! 0) = url_key (?xs ! 3)"
    by (simp add: string_eval)
  then have fo: "\<not> first_occurrence ?xs 3"
    unfolding first_occurrence_def by (intro notI) (metis zero_less_numeral)
  have ev: "deduplicate ?xs = [py ''a | x'', py ''b'', py ''  '', py ''A | z'']"
    by (simp add: string_eval dedup_eval)
  from first_occurrence_rule [of ?xs] len nb
  have "deduplicate (take (Suc 3) ?xs)
          = deduplicate (take 3 ?xs) @ (if first_occurrence ?xs 3 then [?xs ! 3] else [])"
    by blast
  with fo ev show ?thesis by (simp only: if_False append_Nil2 simp_thms)
qed

text \<open>
  C2. The list returned by \<open>deduplicate\<close> is a subsequence of its input: the kept lines are
  lines of the input, unchanged and in the order of the input, and there are no more of
  them than in the input.
\<close>

theorem order_preservation:
  "subseq (deduplicate xs) xs \<and> length (deduplicate xs) \<le> length xs"
proof
  show s: "subseq (deduplicate xs) xs" by (rule deduplicate_subseq)
  then show "length (deduplicate xs) \<le> length xs" by (rule list_emb_length)
qed

text \<open>
  C3. An iteration on a blank line appends the line and leaves \<open>url_set\<close> as it is, in every
  state of the loop. A blank line between any lines \<open>xs\<close> and \<open>ys\<close> comes out between what
  \<open>xs\<close> and what \<open>ys\<close> contribute, and these contributions are the ones of the input
  without the blank line.
\<close>

theorem blank_line_preservation:
  assumes "is_blank l"
  shows "dedup_step (url_set, output_list) l = (url_set, output_list @ [l])
       \<and> url_set_after (xs @ [l]) = url_set_after xs
       \<and> deduplicate (xs @ l # ys)
           = deduplicate xs @ l # drop (length (deduplicate xs)) (deduplicate (xs @ ys))"
proof (intro conjI)
  show "dedup_step (url_set, output_list) l = (url_set, output_list @ [l])"
    using assms by (simp add: dedup_step_def)
  show "url_set_after (xs @ [l]) = url_set_after xs"
    using assms by (simp add: url_set_after_snoc)
  have "deduplicate (xs @ l # ys)
          = deduplicate xs @ l # snd (dedup_loop (url_set_after xs, []) ys)"
    using assms by (simp add: deduplicate_append [of xs "l # ys"] dedup_loop_blank_Cons)
  moreover have "drop (length (deduplicate xs)) (deduplicate (xs @ ys))
          = snd (dedup_loop (url_set_after xs, []) ys)"
    by (simp add: deduplicate_append [of xs ys])
  ultimately show "deduplicate (xs @ l # ys)
           = deduplicate xs @ l # drop (length (deduplicate xs)) (deduplicate (xs @ ys))"
    by simp
qed

theorem blank_line_preservation_witness:
  "is_blank (py '' '')
   \<and> dedup_step ({py ''a''}, [py ''a'']) (py '' '') = ({py ''a''}, [py ''a'', py '' ''])
   \<and> url_set_after ([py ''a''] @ [py '' '']) = url_set_after [py ''a'']
   \<and> deduplicate ([py ''a''] @ py '' '' # [py ''a | t''])
       = deduplicate [py ''a''] @ py '' '' #
           drop (length (deduplicate [py ''a''])) (deduplicate ([py ''a''] @ [py ''a | t'']))"
proof -
  have b: "is_blank (py '' '')" by (simp add: string_eval)
  from blank_line_preservation [OF b, of "{py ''a''}" "[py ''a'']" "[py ''a'']" "[py ''a | t'']"] b
  show ?thesis by (simp only: append.simps simp_thms)
qed

text \<open>
  C4. The URL of a line is the part of the stripped line before its first \<open>|\<close>, stripped
  again (the whole stripped line when there is no \<open>|\<close>). What follows the first \<open>|\<close>,
  further \<open>|\<close> characters included, has no influence.
\<close>

theorem key_extraction:
  "url_key data = strip (takeWhile (\<lambda>c. c \<noteq> bar) (strip data))
   \<and> (bar \<notin> set u \<longrightarrow> url_key (u @ bar # t) = strip u)
   \<and> url_key (py ''https://a.com/x | Title | extra'') = py ''https://a.com/x''"
proof (intro conjI impI)
  show "url_key data = strip (takeWhile (\<lambda>c. c \<noteq> bar) (strip data))"
    by (rule url_key_takeWhile)
  show "url_key (u @ bar # t) = strip u" if "bar \<notin> set u"
    using that by (rule url_key_before_bar)
  show "url_key (py ''https://a.com/x | Title | extra'') = py ''https://a.com/x''"
    by (simp add: string_eval)
qed

theorem key_extraction_witness:
  "bar \<notin> set (py '' u '') \<and> url_key (py '' u '' @ bar # py ''t | v'') = py ''u''"
proof -
  have n: "bar \<notin> set (py '' u '')" by (simp add: string_eval)
  have s: "strip (py '' u '') = py ''u''" by (simp add: string_eval)
  from key_extraction [of "[]" "py '' u ''" "py ''t | v''"] n
  have "url_key (py '' u '' @ bar # py ''t | v'') = strip (py '' u '')" by blast
  with n s show ?thesis by (simp only: simp_thms)
qed

text \<open>
  C5. The URL of a line without \<open>|\<close> is the whole stripped line, so two such lines have the
  same URL exactly when their stripped contents are equal, and of two such non-blank
  lines the second is dropped exactly in that case.
\<close>

theorem url_only_lines:
  assumes "bar \<notin> set a" and "bar \<notin> set b"
  shows "url_key a = strip a
       \<and> (url_key a = url_key b \<longleftrightarrow> strip a = strip b)
       \<and> (\<not> is_blank a \<and> \<not> is_blank b \<longrightarrow>
            deduplicate [a, b] = (if strip a = strip b then [a] else [a, b]))"
proof -
  have ka: "url_key a = strip a" using assms(1) by (rule url_key_no_bar)
  have kb: "url_key b = strip b" using assms(2) by (rule url_key_no_bar)
  have "deduplicate [a, b] = (if strip a = strip b then [a] else [a, b])"
    if "\<not> is_blank a" "\<not> is_blank b"
    using that ka kb by (auto simp: dedup_eval)
  with ka kb show ?thesis by simp
qed

theorem url_only_lines_witness:
  "bar \<notin> set (py ''a.com '') \<and> bar \<notin> set (py '' a.com'')
   \<and> url_key (py ''a.com '') = py ''a.com''
   \<and> deduplicate [py ''a.com '', py '' a.com''] = [py ''a.com '']"
proof -
  have n: "bar \<notin> set (py ''a.com '')" "bar \<notin> set (py '' a.com'')" by (simp_all add: string_eval)
  have s: "strip (py ''a.com '') = py ''a.com''" "strip (py '' a.com'') = py ''a.com''"
    "\<not> is_blank (py ''a.com '')" "\<not> is_blank (py '' a.com'')"
    by (simp_all add: string_eval)
  from url_only_lines [OF n] s n show ?thesis by (simp only: simp_thms if_True)
qed

text \<open>C6. Running \<open>deduplicate\<close> on its own output changes nothing.\<close>

theorem deduplicate_idempotent:
  "deduplicate (deduplicate xs) = deduplicate xs"
  by (rule deduplicate_fixpoint) (rule deduplicate_distinct_keys)

text \<open>
  C8. A line with only whitespace before its first \<open>|\<close> is not blank and its URL is the
  empty string. The empty string is a URL like any other: of the non-blank lines of the
  input with the empty URL the output holds the first one and no other.
\<close>

theorem empty_key_collapse:
  assumes "\<forall>c\<in>set u. is_space c"
  shows "url_key (u @ bar # t) = [] \<and> \<not> is_blank (u @ bar # t)
       \<and> filter (\<lambda>l. \<not> is_blank l \<and> url_key l = []) (deduplicate xs)
           = take 1 (filter (\<lambda>l. \<not> is_blank l \<and> url_key l = []) xs)"
proof (intro conjI)
  have "bar \<notin> set u" using assms bar_not_space by blast
  then have "url_key (u @ bar # t) = strip u" by (rule url_key_before_bar)
  also have "strip u = []" using assms by (simp only: strip_Nil_iff)
  finally show "url_key (u @ bar # t) = []" .
  show "\<not> is_blank (u @ bar # t)"
    using bar_not_space by (auto simp: is_blank_def strip_Nil_iff)
  show "filter (\<lambda>l. \<not> is_blank l \<and> url_key l = []) (deduplicate xs)
           = take 1 (filter (\<lambda>l. \<not> is_blank l \<and> url_key l = []) xs)"
    by (rule deduplicate_same_key)
qed

theorem empty_key_collapse_witness:
  "list_all is_space (py ''   '')
   \<and> url_key (py ''   '' @ bar # py '' Title'') = []
   \<and> deduplicate [py ''   | Title'', py ''a | b'', py ''| Other'', py '' |''] 
        = [py ''   | Title'', py ''a | b'']"
proof -
  let ?xs = "[py ''   | Title'', py ''a | b'', py ''| Other'', py '' |'']"
  have sp: "\<forall>c\<in>set (py ''   ''). is_space c" by (simp add: string_eval)
  have ev: "deduplicate ?xs = [py ''   | Title'', py ''a | b'']"
    by (simp add: string_eval dedup_eval)
  have la: "list_all is_space (py ''   '')" using sp by (simp only: list_all_iff)
  from empty_key_collapse [OF sp, of "py '' Title''" ?xs] la ev
  show ?thesis by (simp only: simp_thms)
qed

text \<open>
  C10. The non-blank lines of the output have pairwise distinct URLs. The set \<open>url_set\<close>
  only grows, an iteration on a non-blank line inserts the URL exactly when it appends
  the line, and at the end \<open>url_set\<close> holds the URLs of the non-blank lines of the output.
\<close>

theorem distinct_keys_invariant:
  "distinct (map url_key (filter (\<lambda>l. \<not> is_blank l) (deduplicate xs)))
   \<and> url_set_after xs = url_key ` {l \<in> set (deduplicate xs). \<not> is_blank l}
   \<and> fst st \<subseteq> fst (dedup_step st l)
   \<and> (\<not> is_blank l \<longrightarrow>
        dedup_step (url_set, output_list) l =
          (if url_key l \<in> url_set then (url_set, output_list)
           else (insert (url_key l) url_set, output_list @ [l])))"
proof (intro conjI impI)
  show "distinct (map url_key (filter (\<lambda>l. \<not> is_blank l) (deduplicate xs)))"
    by (rule deduplicate_distinct_keys)
  show "url_set_after xs = url_key ` {l \<in> set (deduplicate xs). \<not> is_blank l}"
    by (rule url_set_after_deduplicate)
  show "fst st \<subseteq> fst (dedup_step st l)"
    by (cases st) (auto simp: dedup_step_def Let_def)
  show "dedup_step (url_set, output_list) l =
          (if url_key l \<in> url_set then (url_set, output_list)
           else (insert (url_key l) url_set, output_list @ [l]))" if "\<not> is_blank l"
    using that by (simp add: dedup_step_def Let_def)
qed

theorem distinct_keys_invariant_witness:
  "\<not> is_blank (py ''b | x'')
   \<and> distinct (map url_key (filter (\<lambda>l. \<not> is_blank l)
        (deduplicate [py ''a | x'', py '' '', py ''a'', py ''b''])))
   \<and> {py ''a''} \<subseteq> fst (dedup_step ({py ''a''}, [py ''a | x'']) (py ''b | x''))
   \<and> dedup_step ({py ''a''}, [py ''a | x'']) (py ''b | x'')
       = (insert (py ''b'') {py ''a''}, [py ''a | x''] @ [py ''b | x''])"
proof -
  have nb: "\<not> is_blank (py ''b | x'')" by (simp add: string_eval)
  have k: "url_key (py ''b | x'') = py ''b''" "py ''b'' \<notin> {py ''a''}"
    by (simp_all add: string_eval)
  from distinct_keys_invariant [of "[py ''a | x'', py '' '', py ''a'', py ''b'']"
      "({py ''a''}, [py ''a | x''])" "py ''b | x''" "{py ''a''}" "[py ''a | x'']"] nb
  have d: "distinct (map url_key (filter (\<lambda>l. \<not> is_blank l)
        (deduplicate [py ''a | x'', py '' '', py ''a'', py ''b''])))"
    and m: "fst ({py ''a''}, [py ''a | x''])
              \<subseteq> fst (dedup_step ({py ''a''}, [py ''a | x'']) (py ''b | x''))"
    and e: "dedup_step ({py ''a''}, [py ''a | x'']) (py ''b | x'') =
          (if url_key (py ''b | x'') \<in> {py ''a''} then ({py ''a''}, [py ''a | x''])
           else (insert (url_key (py ''b | x'')) {py ''a''}, [py ''a | x''] @ [py ''b | x'']))"
    by blast+
  from m have m': "{py ''a''} \<subseteq> fst (dedup_step ({py ''a''}, [py ''a | x'']) (py ''b | x''))"
    by (simp only: fst_conv)
  from e k have e': "dedup_step ({py ''a''}, [py ''a | x'']) (py ''b | x'')
       = (insert (py ''b'') {py ''a''}, [py ''a | x''] @ [py ''b | x''])"
    by (simp only: if_False)
  from nb d m' e' show ?thesis by blast
qed

section \<open>The entry point\<close>

lemma read_file_print_line: "read_file p (print_line m w) = read_file p w"
  by (simp add: read_file_def print_line_def)

lemma main_explicit_dest:
  "new_path a = Some p \<Longrightarrow>
   main a w = (case read_file (old_path a) w of
                 Inl e \<Rightarrow> (Raised e, w)
               | Inr data_list \<Rightarrow> write_file (deduplicate data_list) p w)"
  by (simp add: main_def)

lemma main_default_dest:
  "new_path a = None \<Longrightarrow>
   main a w = (case read_file (old_path a) w of
                 Inl e \<Rightarrow> (Raised e, print_line Overwrite_notice w)
               | Inr data_list \<Rightarrow>
                   write_file (deduplicate data_list) (old_path a) (print_line Overwrite_notice w))"
  by (simp add: main_def read_file_print_line)

lemma write_file_stdout:
  "\<exists>rest. stdout (snd (write_file ls p w)) = stdout w @ rest"
  by (auto simp: write_file_def print_line_def split: option.splits)

text \<open>
  C7. Without \<open>new_path\<close> the run is the run with \<open>new_path\<close> equal to \<open>old_path\<close>, after the
  notice of the overwrite has been printed: the notice is the first thing the run prints,
  also when it fails later. When the source file can be read and written, the run
  replaces its text by the concatenation of the deduplicated lines and then prints the
  completion message.
\<close>

theorem in_place_overwrite:
  assumes "new_path a = None"
  shows "main a w = main (a\<lparr>new_path := Some (old_path a)\<rparr>) (print_line Overwrite_notice w)
       \<and> (\<exists>rest. stdout (snd (main a w)) = stdout w @ Overwrite_notice # rest)
       \<and> (files w (old_path a) = Some f \<and> readable f \<and> writable f \<and> content f = Some txt \<longrightarrow>
            main a w =
              (Returned,
               w\<lparr>files := (files w)(old_path a \<mapsto>
                     f\<lparr>content := Some (concat (deduplicate (file_lines [] txt)))\<rparr>),
                 stdout := stdout w @ [Overwrite_notice, Done_notice (old_path a)]\<rparr>))"
proof (intro conjI impI)
  show "main a w = main (a\<lparr>new_path := Some (old_path a)\<rparr>) (print_line Overwrite_notice w)"
    using assms by (simp add: main_default_dest main_explicit_dest read_file_print_line)
  show "\<exists>rest. stdout (snd (main a w)) = stdout w @ Overwrite_notice # rest"
  proof (cases "read_file (old_path a) w")
    case (Inl e)
    then show ?thesis using assms by (simp add: main_default_dest print_line_def)
  next
    case (Inr ls)
    obtain rest where "stdout (snd (write_file (deduplicate ls) (old_path a)
        (print_line Overwrite_notice w))) = stdout (print_line Overwrite_notice w) @ rest"
      using write_file_stdout by blast
    then show ?thesis using assms Inr by (simp add: main_default_dest print_line_def)
  qed
  show "main a w =
      (Returned,
       w\<lparr>files := (files w)(old_path a \<mapsto>
             f\<lparr>content := Some (concat (deduplicate (file_lines [] txt)))\<rparr>),
         stdout := stdout w @ [Overwrite_notice, Done_notice (old_path a)]\<rparr>)"
    if "files w (old_path a) = Some f \<and> readable f \<and> writable f \<and> content f = Some txt"
    using assms that
    by (simp add: main_default_dest read_file_def write_file_def print_line_def)
qed

theorem in_place_overwrite_witness:
  "new_path \<lparr>old_path = ''tabs.txt'', new_path = None\<rparr> = None
   \<and> main \<lparr>old_path = ''tabs.txt'', new_path = None\<rparr>
        \<lparr>files = [''tabs.txt'' \<mapsto> \<lparr>readable = True, writable = True,
                     content = Some (py ''a | x'' @ [10] @ py ''a | y'' @ [10])\<rparr>],
         create_error = Map.empty, stdout = []\<rparr>
     = (Returned,
        \<lparr>files = [''tabs.txt'' \<mapsto> \<lparr>readable = True, writable = True,
                     content = Some (py ''a | x'' @ [10])\<rparr>],
         create_error = Map.empty,
         stdout = [Overwrite_notice, Done_notice ''tabs.txt'']\<rparr>)"
proof -
  let ?a = "\<lparr>old_path = ''tabs.txt'', new_path = None\<rparr>"
  let ?f = "\<lparr>readable = True, writable = True,
             content = Some (py ''a | x'' @ [10] @ py ''a | y'' @ [10])\<rparr>"
  let ?w = "\<lparr>files = [''tabs.txt'' \<mapsto> ?f], create_error = Map.empty, stdout = []\<rparr>"
  have n: "new_path ?a = None" by simp
  have h: "files ?w (old_path ?a) = Some ?f \<and> readable ?f \<and> writable ?f
           \<and> content ?f = Some (py ''a | x'' @ [10] @ py ''a | y'' @ [10])"
    by simp
  have ev: "concat (deduplicate (file_lines [] (py ''a | x'' @ [10] @ py ''a | y'' @ [10])))
              = py ''a | x'' @ [10]"
    by (simp add: string_eval dedup_eval)
  from in_place_overwrite [OF n, of ?w ?f "py ''a | x'' @ [10] @ py ''a | y'' @ [10]"] h
  have "main ?a ?w =
      (Returned,
       ?w\<lparr>files := (files ?w)(old_path ?a \<mapsto>
             ?f\<lparr>content := Some (concat (deduplicate
                  (file_lines [] (py ''a | x'' @ [10] @ py ''a | y'' @ [10]))))\<rparr>),
         stdout := stdout ?w @ [Overwrite_notice, Done_notice (old_path ?a)]\<rparr>)"
    by blast
  then show ?thesis unfolding ev by simp
qed

text \<open>
  C9. When reading the source file raises an error, the run ends with that error and
  \<open>write_file\<close> is not reached: every file, the destination among them, is as it was
  before the run, and no completion message is printed.
\<close>

theorem read_failure_no_write:
  assumes "read_file (old_path a) w = Inl e"
  shows "fst (main a w) = Raised e
       \<and> files (snd (main a w)) = files w
       \<and> create_error (snd (main a w)) = create_error w
       \<and> (\<forall>p. Done_notice p \<in> set (stdout (snd (main a w))) \<longrightarrow> Done_notice p \<in> set (stdout w))"
  using assms
  by (cases "new_path a") (auto simp: main_default_dest main_explicit_dest print_line_def)

theorem read_failure_no_write_witness:
  "read_file (old_path \<lparr>old_path = ''missing.txt'', new_path = Some ''out.txt''\<rparr>)
       \<lparr>files = [''out.txt'' \<mapsto> \<lparr>readable = True, writable = True, content = Some (py ''keep'')\<rparr>],
        create_error = Map.empty, stdout = []\<rparr> = Inl FileNotFoundError
   \<and> fst (main \<lparr>old_path = ''missing.txt'', new_path = Some ''out.txt''\<rparr>
       \<lparr>files = [''out.txt'' \<mapsto> \<lparr>readable = True, writable = True, content = Some (py ''keep'')\<rparr>],
        create_error = Map.empty, stdout = []\<rparr>) = Raised FileNotFoundError
   \<and> files (snd (main \<lparr>old_path = ''missing.txt'', new_path = Some ''out.txt''\<rparr>
       \<lparr>files = [''out.txt'' \<mapsto> \<lparr>readable = True, writable = True, content = Some (py ''keep'')\<rparr>],
        create_error = Map.empty, stdout = []\<rparr>)) ''out.txt''
       = Some \<lparr>readable = True, writable = True, content = Some (py ''keep'')\<rparr>"
proof -
  let ?a = "\<lparr>old_path = ''missing.txt'', new_path = Some ''out.txt''\<rparr>"
  let ?w = "\<lparr>files = [''out.txt'' \<mapsto> \<lparr>readable = True, writable = True, content = Some (py ''keep'')\<rparr>],
        create_error = Map.empty, stdout = []\<rparr>"
  have r: "read_file (old_path ?a) ?w = Inl FileNotFoundError"
    by (simp add: read_file_def)
  from read_failure_no_write [OF r] r show ?thesis by simp
qed

end
